theory Spec2Isabelle
  imports Main
begin

section \<open>Python values, errors and the object store\<close>

text \<open>
  A Python \<^verbatim>\<open>str\<close> is a sequence of code points and \<^verbatim>\<open>len\<close> counts them, so the
  text values handled by the validators are lists of code points. Attribute and
  method names are only compared and concatenated; they are kept as \<^typ>\<open>string\<close>.
\<close>

type_synonym pystr = "nat list"

definition newline :: nat where
  "newline = 10"

definition space :: nat where
  "space = 32"

text \<open>
  \<^verbatim>\<open>v.replace(old, new)\<close> where \<^verbatim>\<open>old\<close> and \<^verbatim>\<open>new\<close> are single code points:
  every occurrence of \<^verbatim>\<open>old\<close> becomes \<^verbatim>\<open>new\<close>.
\<close>

definition replace :: "nat \<Rightarrow> nat \<Rightarrow> pystr \<Rightarrow> pystr" where
  "replace old new v = map (\<lambda>c. if c = old then new else c) v"

text \<open>
  The exceptions that can leave the code: the record library's validation error,
  with its message, and Python's \<^verbatim>\<open>TypeError\<close>.
\<close>

datatype error = ValidationError string | TypeError

text \<open>
  The call \<^verbatim>\<open>ValidationError(msg)\<close>. The name is the record library's exception
  class, imported in \<^verbatim>\<open>tweet_v1.py\<close>; that class cannot be built from a single
  message, so the call does not return an exception object: it raises
  \<^verbatim>\<open>TypeError\<close>.
\<close>

definition validation_error_init :: "string \<Rightarrow> error + error" where
  "validation_error_init msg = Inl TypeError"

text \<open>
  The statement \<^verbatim>\<open>raise E\<close>: the operand is evaluated first; what it raises
  propagates, and otherwise the exception it yields is raised.
\<close>

definition py_raise :: "error + error \<Rightarrow> error" where
  "py_raise operand = (case operand of Inl e \<Rightarrow> e | Inr exc \<Rightarrow> exc)"

text \<open>
  Objects live in a store and are named by references, so that "the same instance"
  can be told from "an equal copy". An instance carries the assignment behaviour
  of its type and its own attribute dictionary.

  The record library's per-field validation on assignment is not part of the
  sources; it is a parameter of the instance's type, \<open>assign_hook\<close>: given the
  attribute name and the supplied value it either raises or yields the value to
  store. A type that does not validate on assignment has the hook \<open>\<lambda>_. Inr\<close>.
\<close>

type_synonym ref = nat

record 'v py_instance =
  assign_hook :: "string \<Rightarrow> 'v \<Rightarrow> error + 'v"
  inst_dict :: "string \<rightharpoonup> 'v"

type_synonym 'v heap = "ref \<Rightarrow> 'v py_instance"

text \<open>
  \<^verbatim>\<open>setattr(self, name, value)\<close> on an instance: the hook runs first; when it raises
  nothing is stored, otherwise the value it yields is stored under \<open>name\<close>.
\<close>

definition py_setattr :: "'v heap \<Rightarrow> ref \<Rightarrow> string \<Rightarrow> 'v \<Rightarrow> 'v heap \<times> (error + unit)" where
  "py_setattr h self name val =
     (case assign_hook (h self) name val of
        Inl e \<Rightarrow> (h, Inl e)
      | Inr stored \<Rightarrow>
          (h(self := (h self)\<lparr>inst_dict := (inst_dict (h self))(name \<mapsto> stored)\<rparr>), Inr ()))"

text \<open>Reading an attribute; \<open>None\<close> when the attribute was never set.\<close>

definition py_getattr :: "'v heap \<Rightarrow> ref \<Rightarrow> string \<Rightarrow> 'v option" where
  "py_getattr h self name = inst_dict (h self) name"

text \<open>
  A method takes the store, the receiver and one argument; it returns the new store
  and either the raised exception or its result.
\<close>

type_synonym ('v, 'r) py_method = "'v heap \<Rightarrow> ref \<Rightarrow> 'v \<Rightarrow> 'v heap \<times> (error + 'r)"

section \<open>The fluent setter decorator\<close>

text \<open>
  \<^verbatim>\<open>
  def fluent_setter(attr_name: str):
      def decorator(method: Callable[[T, Any], T]):
          @wraps(method)
          def wrapper(self: T, value: Any) -> T:
              setattr(self, attr_name, value)
              return self
          return wrapper
      return decorator
  \<close>
  The same text stands in \<^verbatim>\<open>fluent_setter.py\<close> and in \<^verbatim>\<open>generic_fluent_builder.py\<close>.
\<close>

definition wrapper :: "string \<Rightarrow> ('v, 'r) py_method \<Rightarrow> ('v, ref) py_method" where
  "wrapper attr_name meth h self val =
     (case py_setattr h self attr_name val of
        (h', Inl e) \<Rightarrow> (h', Inl e)
      | (h', Inr u) \<Rightarrow> (h', Inr self))"

definition decorator :: "string \<Rightarrow> ('v, 'r) py_method \<Rightarrow> ('v, ref) py_method" where
  "decorator attr_name meth = wrapper attr_name meth"

definition fluent_setter :: "string \<Rightarrow> ('v, 'r) py_method \<Rightarrow> ('v, ref) py_method" where
  "fluent_setter attr_name = decorator attr_name"

section \<open>Generating the setters of a model type\<close>

text \<open>
  A model type as far as generation sees it: the keys of its own
  \<^verbatim>\<open>__annotations__\<close> in insertion order, its own attribute table, and the
  attributes it finds on its base classes. The annotations are those of the class
  body itself, which is what \<^verbatim>\<open>cls.__annotations__\<close> evaluates to for every class
  whose body annotates a name, and from Python 3.10 on for every class.
\<close>

record 'v model_class =
  annotations :: "string list"
  cls_dict :: "string \<rightharpoonup> ('v, ref) py_method"
  bases_attrs :: "string \<rightharpoonup> ('v, ref) py_method"

definition getattr_cls :: "'v model_class \<Rightarrow> string \<Rightarrow> ('v, ref) py_method option" where
  "getattr_cls cls name =
     (case cls_dict cls name of Some m \<Rightarrow> Some m | None \<Rightarrow> bases_attrs cls name)"

definition hasattr :: "'v model_class \<Rightarrow> string \<Rightarrow> bool" where
  "hasattr cls name = (getattr_cls cls name \<noteq> None)"

definition setattr_cls ::
    "'v model_class \<Rightarrow> string \<Rightarrow> ('v, ref) py_method \<Rightarrow> 'v model_class" where
  "setattr_cls cls name m = cls\<lparr>cls_dict := (cls_dict cls)(name \<mapsto> m)\<rparr>"

text \<open>
  The class statement \<^verbatim>\<open>class D(B): ...\<close> with its own annotations and methods;
  attribute lookup on the new class falls back on \<^verbatim>\<open>B\<close>.
\<close>

definition derived_class ::
    "'v model_class \<Rightarrow> string list \<Rightarrow> (string \<rightharpoonup> ('v, ref) py_method) \<Rightarrow> 'v model_class" where
  "derived_class base anns body =
     \<lparr>annotations = anns, cls_dict = body, bases_attrs = getattr_cls base\<rparr>"

text \<open>\<^verbatim>\<open>sep.join(parts)\<close>\<close>

fun join :: "string \<Rightarrow> string list \<Rightarrow> string" where
  "join sep [] = []"
| "join sep [x] = x"
| "join sep (x # y # ys) = x @ sep @ join sep (y # ys)"

text \<open>
  The function handed to the decorator by the generator:
  \<^verbatim>\<open>lambda self, value, field=field: setattr(self, field, value) or self\<close>.
  \<^verbatim>\<open>setattr\<close> returns \<^verbatim>\<open>None\<close>, so the expression evaluates to \<^verbatim>\<open>self\<close>.
\<close>

definition setter_lambda :: "string \<Rightarrow> ('v, ref) py_method" where
  "setter_lambda field h self val =
     (case py_setattr h self field val of
        (h', Inl e) \<Rightarrow> (h', Inl e)
      | (h', Inr u) \<Rightarrow> (h', Inr self))"

text \<open>
  \<^verbatim>\<open>
  @classmethod
  def generate_fluent_setters(cls):
      for field in cls.__annotations__:
          method_name = "_".join(["with", field])
          if not hasattr(cls, method_name):
              method = fluent_setter(field)(
                  lambda self, value, field=field: setattr(self, field, value) or self
              )
              setattr(cls, method_name, method)
  \<close>
\<close>

fun generate_loop :: "string list \<Rightarrow> 'v model_class \<Rightarrow> 'v model_class" where
  "generate_loop [] cls = cls"
| "generate_loop (field # rest) cls =
     (let method_name = join ''_'' [''with'', field] in
      generate_loop rest
        (if \<not> hasattr cls method_name
         then setattr_cls cls method_name (fluent_setter field (setter_lambda field))
         else cls))"

definition generate_fluent_setters :: "'v model_class \<Rightarrow> 'v model_class" where
  "generate_fluent_setters cls = generate_loop (annotations cls) cls"

section \<open>The validators of the tweet schema\<close>

text \<open>
  \<^verbatim>\<open>
  @validator('description', pre=False)
  def description_replace(cls, v):
      if len(v) > 80:
          raise ValidationError('description should be less than 80 characters')
      return v.replace('\n', ' ')

  @validator('text', pre=False)
  def text_replace(cls, v):
      if len(v) > 140:
          raise ValidationError('text should be less than 140 characters')
      return v.replace('\n', ' ')
  \<close>
\<close>

definition description_replace :: "pystr \<Rightarrow> error + pystr" where
  "description_replace v =
     (if length v > 80
      then Inl (py_raise
                  (validation_error_init ''description should be less than 80 characters''))
      else Inr (replace newline space v))"

definition text_replace :: "pystr \<Rightarrow> error + pystr" where
  "text_replace v =
     (if length v > 140
      then Inl (py_raise (validation_error_init ''text should be less than 140 characters''))
      else Inr (replace newline space v))"

section \<open>Example instances and types\<close>

text \<open>An instance of a type that stores every assigned value as it is.\<close>

definition plain_instance :: "int py_instance" where
  "plain_instance = \<lparr>assign_hook = (\<lambda>name. Inr), inst_dict = Map.empty\<rparr>"

definition plain_heap :: "int heap" where
  "plain_heap = (\<lambda>r. plain_instance)"

text \<open>
  An instance of a record type whose \<open>text\<close> field is validated on assignment by
  \<open>text_replace\<close>; its other attributes are stored as they are.
\<close>

definition tweet_instance :: "pystr py_instance" where
  "tweet_instance =
     \<lparr>assign_hook = (\<lambda>name. if name = ''text'' then text_replace else Inr),
      inst_dict = Map.empty\<rparr>"

definition tweet_heap :: "pystr heap" where
  "tweet_heap = (\<lambda>r. tweet_instance)"

text \<open>
  An instance of a record type that, like \<^verbatim>\<open>Tweet\<close> in \<^verbatim>\<open>tweet_v1.py\<close>, declares
  its validators but does not ask for validation on assignment: every assigned
  value is stored as it is.
\<close>

definition unvalidated_instance :: "pystr py_instance" where
  "unvalidated_instance = \<lparr>assign_hook = (\<lambda>name. Inr), inst_dict = Map.empty\<rparr>"

definition unvalidated_heap :: "pystr heap" where
  "unvalidated_heap = (\<lambda>r. unvalidated_instance)"

text \<open>A hand-written method that stores nothing and returns object 7.\<close>

definition user_method :: "(int, ref) py_method" where
  "user_method h self val = (h, Inr 7)"

text \<open>A method with another result type, as an argument for the decorator.\<close>

definition unit_method :: "(int, unit) py_method" where
  "unit_method h self val = (h, Inr ())"

text \<open>A type with fields \<open>a\<close> and \<open>b\<close> whose author wrote \<open>with_b\<close>.\<close>

definition example_cls :: "int model_class" where
  "example_cls =
     \<lparr>annotations = [''a'', ''b''],
      cls_dict = [''with_b'' \<mapsto> user_method],
      bases_attrs = Map.empty\<rparr>"

text \<open>A type that declares no field.\<close>

definition empty_cls :: "int model_class" where
  "empty_cls =
     \<lparr>annotations = [], cls_dict = [''helper'' \<mapsto> user_method], bases_attrs = Map.empty\<rparr>"

section \<open>Properties of the decorator\<close>

lemma method_name_eq: "join ''_'' [''with'', field] = ''with_'' @ field"
  by simp

lemma fluent_setter_apply:
  "fluent_setter f meth h m v =
     (case assign_hook (h m) f v of
        Inl e \<Rightarrow> (h, Inl e)
      | Inr stored \<Rightarrow>
          (h(m := (h m)\<lparr>inst_dict := (inst_dict (h m))(f \<mapsto> stored)\<rparr>), Inr m))"
  by (simp add: fluent_setter_def decorator_def wrapper_def py_setattr_def split: sum.splits)

section \<open>Properties of the generation loop\<close>

lemma loop_step:
  "generate_loop (f # fs) c =
     generate_loop fs
       (if hasattr c (''with_'' @ f) then c
        else setattr_cls c (''with_'' @ f) (fluent_setter f (setter_lambda f)))"
  by (simp add: Let_def)

declare generate_loop.simps(2) [simp del]

lemma loop_annotations: "annotations (generate_loop fs c) = annotations c"
  by (induction fs arbitrary: c) (simp_all add: loop_step setattr_cls_def)

lemma loop_bases: "bases_attrs (generate_loop fs c) = bases_attrs c"
  by (induction fs arbitrary: c) (simp_all add: loop_step setattr_cls_def)

lemma hasattr_setattr: "hasattr c n \<Longrightarrow> hasattr (setattr_cls c k m) n"
  by (simp add: hasattr_def getattr_cls_def setattr_cls_def split: option.splits)

lemma hasattr_setattr_same: "hasattr (setattr_cls c k m) k"
  by (simp add: hasattr_def getattr_cls_def setattr_cls_def)

lemma dict_setattr_other: "n \<noteq> k \<Longrightarrow> cls_dict (setattr_cls c k m) n = cls_dict c n"
  by (simp add: setattr_cls_def)

text \<open>An attribute the type already has is never written by the loop.\<close>

lemma loop_dict_kept: "hasattr c n \<Longrightarrow> cls_dict (generate_loop fs c) n = cls_dict c n"
proof (induction fs arbitrary: c)
  case Nil
  then show ?case by simp
next
  case (Cons f fs)
  show ?case
  proof (cases "hasattr c (''with_'' @ f)")
    case True
    with Cons show ?thesis by (simp add: loop_step)
  next
    case False
    with Cons.prems have ne: "n \<noteq> ''with_'' @ f" by auto
    let ?c = "setattr_cls c (''with_'' @ f) (fluent_setter f (setter_lambda f))"
    have "hasattr ?c n" using Cons.prems by (rule hasattr_setattr)
    then have "cls_dict (generate_loop fs ?c) n = cls_dict ?c n" by (rule Cons.IH)
    with False ne show ?thesis by (simp add: loop_step dict_setattr_other)
  qed
qed

lemma loop_keeps: "hasattr c n \<Longrightarrow> getattr_cls (generate_loop fs c) n = getattr_cls c n"
  by (simp add: getattr_cls_def loop_dict_kept loop_bases split: option.splits)

lemma loop_hasattr_mono: "hasattr c n \<Longrightarrow> hasattr (generate_loop fs c) n"
  using loop_keeps [of c n fs] by (simp add: hasattr_def)

text \<open>A loop over fields that all have their method changes nothing.\<close>

lemma loop_noop: "(\<forall>f \<in> set fs. hasattr c (''with_'' @ f)) \<Longrightarrow> generate_loop fs c = c"
  by (induction fs arbitrary: c) (simp_all add: loop_step)

text \<open>After the loop every visited field has its method.\<close>

lemma loop_covers: "f \<in> set fs \<Longrightarrow> hasattr (generate_loop fs c) (''with_'' @ f)"
proof (induction fs arbitrary: c)
  case Nil
  then show ?case by simp
next
  case (Cons g fs)
  let ?c = "if hasattr c (''with_'' @ g) then c
            else setattr_cls c (''with_'' @ g) (fluent_setter g (setter_lambda g))"
  have step: "generate_loop (g # fs) c = generate_loop fs ?c" by (rule loop_step)
  show ?case
  proof (cases "f = g")
    case True
    have "hasattr ?c (''with_'' @ g)" by (simp add: hasattr_setattr_same)
    then show ?thesis unfolding step True by (rule loop_hasattr_mono)
  next
    case False
    with Cons.prems have "f \<in> set fs" by simp
    then show ?thesis unfolding step by (rule Cons.IH)
  qed
qed

text \<open>A visited field with no method yet gets the decorated setter, in the type's own table.\<close>

lemma loop_new:
  "f \<in> set fs \<Longrightarrow> \<not> hasattr c (''with_'' @ f) \<Longrightarrow>
   cls_dict (generate_loop fs c) (''with_'' @ f) = Some (fluent_setter f (setter_lambda f))"
proof (induction fs arbitrary: c)
  case Nil
  then show ?case by simp
next
  case (Cons g fs)
  show ?case
  proof (cases "f = g")
    case True
    let ?c = "setattr_cls c (''with_'' @ f) (fluent_setter f (setter_lambda f))"
    have "hasattr ?c (''with_'' @ f)" by (rule hasattr_setattr_same)
    then have "cls_dict (generate_loop fs ?c) (''with_'' @ f) = cls_dict ?c (''with_'' @ f)"
      by (rule loop_dict_kept)
    with True Cons.prems(2) show ?thesis by (simp add: loop_step setattr_cls_def)
  next
    case False
    with Cons.prems have mem: "f \<in> set fs" by simp
    show ?thesis
    proof (cases "hasattr c (''with_'' @ g)")
      case True
      with Cons.IH [OF mem Cons.prems(2)] show ?thesis by (simp add: loop_step)
    next
      case nh: False
      let ?c = "setattr_cls c (''with_'' @ g) (fluent_setter g (setter_lambda g))"
      have "\<not> hasattr ?c (''with_'' @ f)"
        using Cons.prems(2) False
        by (simp add: hasattr_def getattr_cls_def setattr_cls_def split: option.splits)
      from Cons.IH [OF mem this] nh show ?thesis by (simp add: loop_step)
    qed
  qed
qed

text \<open>A name that is the method name of no visited field is never written.\<close>

lemma loop_untouched:
  "n \<notin> (\<lambda>f. ''with_'' @ f) ` set fs \<Longrightarrow> cls_dict (generate_loop fs c) n = cls_dict c n"
  by (induction fs arbitrary: c) (auto simp: loop_step setattr_cls_def)

text \<open>The loop is a fold of its body over the keys.\<close>

lemma loop_fold:
  "generate_loop fs c =
     fold (\<lambda>field cls.
             if \<not> hasattr cls (join ''_'' [''with'', field])
             then setattr_cls cls (join ''_'' [''with'', field])
                    (fluent_setter field (setter_lambda field))
             else cls) fs c"
  by (induction fs arbitrary: c) (simp_all add: loop_step)

text \<open>The names whose entry the loop changes.\<close>

lemma loop_changed:
  "{n. cls_dict (generate_loop fs c) n \<noteq> cls_dict c n}
     = (\<lambda>f. ''with_'' @ f) ` {f \<in> set fs. \<not> hasattr c (''with_'' @ f)}"
proof (intro equalityI subsetI)
  fix n
  assume "n \<in> {n. cls_dict (generate_loop fs c) n \<noteq> cls_dict c n}"
  then have ch: "cls_dict (generate_loop fs c) n \<noteq> cls_dict c n" by simp
  have "n \<in> (\<lambda>f. ''with_'' @ f) ` set fs"
    using ch loop_untouched [of n fs c] by blast
  then obtain f where f: "f \<in> set fs" "n = ''with_'' @ f" by blast
  have "\<not> hasattr c n" using ch loop_dict_kept [of c n fs] by blast
  with f show "n \<in> (\<lambda>f. ''with_'' @ f) ` {f \<in> set fs. \<not> hasattr c (''with_'' @ f)}"
    by blast
next
  fix n
  assume "n \<in> (\<lambda>f. ''with_'' @ f) ` {f \<in> set fs. \<not> hasattr c (''with_'' @ f)}"
  then obtain f where f: "f \<in> set fs" "\<not> hasattr c (''with_'' @ f)" "n = ''with_'' @ f"
    by blast
  from f(1,2) have "cls_dict (generate_loop fs c) (''with_'' @ f)
      = Some (fluent_setter f (setter_lambda f))" by (rule loop_new)
  moreover from f(2) have "cls_dict c (''with_'' @ f) = None"
    by (simp add: hasattr_def getattr_cls_def split: option.splits)
  ultimately show "n \<in> {n. cls_dict (generate_loop fs c) n \<noteq> cls_dict c n}"
    using f(3) by simp
qed

text \<open>The example type after generation.\<close>

lemma example_generated:
  "generate_fluent_setters example_cls =
     example_cls\<lparr>cls_dict := [''with_b'' \<mapsto> user_method,
                                ''with_a'' \<mapsto> fluent_setter ''a'' (setter_lambda ''a'')]\<rparr>"
  by (simp add: generate_fluent_setters_def example_cls_def loop_step hasattr_def
      getattr_cls_def setattr_cls_def)

section \<open>Properties of the replacement\<close>

lemma replace_pointwise:
  "length (replace old new v) = length v
   \<and> (\<forall>i < length v. replace old new v ! i = (if v ! i = old then new else v ! i))"
  by (simp add: replace_def)

lemma replace_changes: "old \<noteq> new \<Longrightarrow> old \<in> set v \<Longrightarrow> replace old new v \<noteq> v"
proof
  assume ne: "old \<noteq> new" and mem: "old \<in> set v" and eq: "replace old new v = v"
  from mem have "new \<in> set (replace old new v)" by (auto simp: replace_def)
  moreover have "old \<notin> set (replace old new v)" using ne by (auto simp: replace_def)
  ultimately show False using mem eq by simp
qed

section \<open>Chaining identity\<close>

text \<open>
  Claim C1. Whenever the assignment of \<open>v\<close> to field \<open>f\<close> of instance \<open>m\<close> succeeds,
  the fluent setter of \<open>f\<close> returns the reference \<open>m\<close> it was called on, not
  another object; a call that returns at all returns \<open>m\<close>. The decorated method
  plays no part: decorating any two methods, of any result types, gives the same
  setter. The same holds for the setter that generation attaches to a type for a
  declared field \<open>f\<close> with no method of the conventional name.
\<close>

theorem fluent_setter_returns_self:
  fixes meth :: "('v, 'a) py_method" and other :: "('v, 'b) py_method"
    and h :: "'v heap" and cls :: "'v model_class"
  shows "(\<forall>stored. assign_hook (h m) f v = Inr stored \<longrightarrow>
            snd (fluent_setter f meth h m v) = Inr m)
       \<and> (\<forall>r. snd (fluent_setter f meth h m v) = Inr r \<longrightarrow> r = m)
       \<and> fluent_setter f meth = fluent_setter f other
       \<and> (\<forall>s stored. f \<in> set (annotations cls) \<and> \<not> hasattr cls (''with_'' @ f)
              \<and> getattr_cls (generate_fluent_setters cls) (''with_'' @ f) = Some s
              \<and> assign_hook (h m) f v = Inr stored \<longrightarrow> snd (s h m v) = Inr m)"
proof -
  have a: "\<forall>stored. assign_hook (h m) f v = Inr stored \<longrightarrow>
            snd (fluent_setter f meth h m v) = Inr m"
    by (simp add: fluent_setter_apply)
  have b: "\<forall>r. snd (fluent_setter f meth h m v) = Inr r \<longrightarrow> r = m"
    by (simp add: fluent_setter_apply split: sum.splits)
  have c: "fluent_setter f meth = fluent_setter f other"
    by (intro ext) (simp add: fluent_setter_apply)
  have d: "snd (s h m v) = Inr m"
    if "f \<in> set (annotations cls)" "\<not> hasattr cls (''with_'' @ f)"
      "getattr_cls (generate_fluent_setters cls) (''with_'' @ f) = Some s"
      "assign_hook (h m) f v = Inr stored" for s stored
  proof -
    have "cls_dict (generate_fluent_setters cls) (''with_'' @ f)
            = Some (fluent_setter f (setter_lambda f))"
      unfolding generate_fluent_setters_def using that(1,2) by (rule loop_new)
    with that(3) have "s = fluent_setter f (setter_lambda f)"
      by (simp add: getattr_cls_def)
    with that(4) show ?thesis by (simp add: fluent_setter_apply)
  qed
  from a b c d show ?thesis by blast
qed

theorem fluent_setter_returns_self_witness:
  "assign_hook (plain_heap 3) ''a'' 5 = Inr 5
   \<and> snd (fluent_setter ''a'' user_method plain_heap 3 5) = Inr 3
   \<and> fluent_setter ''a'' user_method = fluent_setter ''a'' unit_method
   \<and> ''a'' \<in> set (annotations example_cls) \<and> \<not> hasattr example_cls (''with_'' @ ''a'')
   \<and> getattr_cls (generate_fluent_setters example_cls) (''with_'' @ ''a'')
        = Some (fluent_setter ''a'' (setter_lambda ''a''))
   \<and> snd (fluent_setter ''a'' (setter_lambda ''a'') plain_heap 3 5) = Inr 3"
proof -
  have hook: "assign_hook (plain_heap 3) ''a'' 5 = Inr 5"
    by (simp add: plain_heap_def plain_instance_def)
  have mem: "''a'' \<in> set (annotations example_cls)"
    by (simp add: example_cls_def)
  have nh: "\<not> hasattr example_cls (''with_'' @ ''a'')"
    by (simp add: example_cls_def hasattr_def getattr_cls_def)
  have g: "getattr_cls (generate_fluent_setters example_cls) (''with_'' @ ''a'')
        = Some (fluent_setter ''a'' (setter_lambda ''a''))"
    by (simp add: generate_fluent_setters_def example_cls_def loop_step hasattr_def
        getattr_cls_def setattr_cls_def)
  note t = fluent_setter_returns_self [of plain_heap 3 "''a''" 5 user_method unit_method example_cls]
  from t hook have r: "snd (fluent_setter ''a'' user_method plain_heap 3 5) = Inr 3" by blast
  from t have e: "fluent_setter ''a'' user_method = fluent_setter ''a'' unit_method" by blast
  from t mem nh g hook
  have s: "snd (fluent_setter ''a'' (setter_lambda ''a'') plain_heap 3 5) = Inr 3" by blast
  from hook r e mem nh g s show ?thesis by blast
qed

section \<open>Assignment correctness\<close>

text \<open>
  Claim C2, as stated: after a successful \<open>m.with_f(v)\<close>, reading \<open>f\<close> on \<open>m\<close> yields
  exactly \<open>v\<close>. It fails for a type whose assignment validation rewrites the value:
  with \<open>text_replace\<close> on the \<open>text\<close> field, setting the three code points
  \<open>a\<close>, newline, \<open>b\<close> succeeds and the field then reads \<open>a\<close>, space, \<open>b\<close>.
\<close>

theorem read_after_set_counterexample:
  "\<not> (\<forall>(h :: pystr heap) m f v (meth :: (pystr, ref) py_method) h' r.
        fluent_setter f meth h m v = (h', Inr r) \<longrightarrow> py_getattr h' m f = Some v)"
proof
  assume a: "\<forall>(h :: pystr heap) m f v (meth :: (pystr, ref) py_method) h' r.
        fluent_setter f meth h m v = (h', Inr r) \<longrightarrow> py_getattr h' m f = Some v"
  let ?h' = "tweet_heap(0 := tweet_instance\<lparr>inst_dict := [''text'' \<mapsto> [97, 32, 98]]\<rparr>)"
  have run: "fluent_setter ''text'' (setter_lambda ''text'') tweet_heap 0 [97, 10, 98]
               = (?h', Inr 0)"
    by (simp add: fluent_setter_apply tweet_heap_def tweet_instance_def text_replace_def
        replace_def newline_def space_def)
  from a run have "py_getattr ?h' 0 ''text'' = Some [97, 10, 98]" by blast
  then show False by (simp add: py_getattr_def)
qed

text \<open>
  Claim C2, amended: after a successful \<open>m.with_f(v)\<close>, reading \<open>f\<close> on \<open>m\<close> yields
  the value that the type's validation on assignment returned for \<open>v\<close>; this is
  \<open>v\<close> itself whenever that validation returns \<open>v\<close> unchanged, as it does for a
  type without validation on assignment.
\<close>

theorem read_after_set:
  fixes meth :: "('v, 'a) py_method" and h :: "'v heap"
  assumes "fluent_setter f meth h m v = (h', Inr r)"
  shows "(\<exists>stored. assign_hook (h m) f v = Inr stored \<and> py_getattr h' m f = Some stored)
       \<and> (assign_hook (h m) f v = Inr v \<longrightarrow> py_getattr h' m f = Some v)"
  using assms by (auto simp: fluent_setter_apply py_getattr_def split: sum.splits)

theorem read_after_set_witness:
  "fluent_setter ''text'' unit_method plain_heap 3 5
     = (plain_heap(3 := plain_instance\<lparr>inst_dict := [''text'' \<mapsto> 5]\<rparr>), Inr 3)
   \<and> assign_hook (plain_heap 3) ''text'' 5 = Inr 5
   \<and> py_getattr (plain_heap(3 := plain_instance\<lparr>inst_dict := [''text'' \<mapsto> 5]\<rparr>)) 3 ''text''
       = Some 5"
proof -
  have run: "fluent_setter ''text'' unit_method plain_heap 3 5
     = (plain_heap(3 := plain_instance\<lparr>inst_dict := [''text'' \<mapsto> 5]\<rparr>), Inr 3)"
    by (simp add: fluent_setter_apply plain_heap_def plain_instance_def)
  have hook: "assign_hook (plain_heap 3) ''text'' 5 = Inr 5"
    by (simp add: plain_heap_def plain_instance_def)
  from read_after_set [OF run] hook
  have "py_getattr (plain_heap(3 := plain_instance\<lparr>inst_dict := [''text'' \<mapsto> 5]\<rparr>)) 3 ''text''
       = Some 5" by blast
  with run hook show ?thesis by blast
qed

section \<open>Idempotent generation\<close>

text \<open>
  Claim C3. Running \<open>generate_fluent_setters\<close> twice gives the same type as running
  it once: the same annotations and the same attribute tables, name by name and
  method by method. The second run finds every method in place and writes nothing.
\<close>

theorem generate_idempotent:
  "generate_fluent_setters (generate_fluent_setters cls) = generate_fluent_setters cls"
proof -
  let ?c = "generate_loop (annotations cls) cls"
  have "\<forall>f \<in> set (annotations cls). hasattr ?c (''with_'' @ f)"
    using loop_covers by blast
  then have "generate_loop (annotations cls) ?c = ?c" by (rule loop_noop)
  then show ?thesis by (simp add: generate_fluent_setters_def loop_annotations)
qed

theorem generate_idempotent_witness:
  "generate_fluent_setters (generate_fluent_setters example_cls) =
     example_cls\<lparr>cls_dict := [''with_b'' \<mapsto> user_method,
                                ''with_a'' \<mapsto> fluent_setter ''a'' (setter_lambda ''a'')]\<rparr>"
  using generate_idempotent [of example_cls] by (simp add: example_generated)

section \<open>Override precedence\<close>

text \<open>
  Claim C4. If the type has an attribute named \<open>with_f\<close> before generation runs,
  defined on the type itself or found on a base class, generation leaves the type's
  own entry for that name as it was, and looking \<open>with_f\<close> up afterwards gives the
  very method that was there before.
\<close>

theorem override_precedence:
  assumes "hasattr cls (''with_'' @ f)"
  shows "getattr_cls (generate_fluent_setters cls) (''with_'' @ f) = getattr_cls cls (''with_'' @ f)
       \<and> cls_dict (generate_fluent_setters cls) (''with_'' @ f) = cls_dict cls (''with_'' @ f)"
  using assms by (simp add: generate_fluent_setters_def loop_keeps loop_dict_kept)

theorem override_precedence_witness:
  "hasattr example_cls (''with_'' @ ''b'')
   \<and> getattr_cls (generate_fluent_setters example_cls) (''with_'' @ ''b'') = Some user_method
   \<and> user_method plain_heap 3 5 = (plain_heap, Inr 7)"
proof -
  have h: "hasattr example_cls (''with_'' @ ''b'')"
    by (simp add: hasattr_def getattr_cls_def example_cls_def)
  have g: "getattr_cls example_cls (''with_'' @ ''b'') = Some user_method"
    by (simp add: getattr_cls_def example_cls_def)
  from override_precedence [OF h] g
  have "getattr_cls (generate_fluent_setters example_cls) (''with_'' @ ''b'') = Some user_method"
    by simp
  with h show ?thesis by (simp add: user_method_def)
qed

section \<open>What generation attaches\<close>

text \<open>
  Claim C5. For a declared field \<open>f\<close> with no attribute of the conventional name on
  the type, generation stores in the type's own table, under the name \<open>with_\<close>
  followed by \<open>f\<close> exactly, a method that assigns its argument to \<open>f\<close> on the
  receiver and returns the receiver. The names whose entry changes are exactly the
  conventional names of the declared fields that had none, one name per field since
  the naming is injective, and the loop body runs once for each key of the
  annotations, in order.
\<close>

theorem generated_setter:
  fixes cls :: "'v model_class"
  assumes "f \<in> set (annotations cls)" and "\<not> hasattr cls (join ''_'' [''with'', f])"
  shows "join ''_'' [''with'', f] = ''with_'' @ f
       \<and> (\<exists>s. cls_dict (generate_fluent_setters cls) (''with_'' @ f) = Some s
            \<and> (\<forall>h m v. s h m v =
                  (case py_setattr h m f v of
                     (h', Inl e) \<Rightarrow> (h', Inl e)
                   | (h', Inr u) \<Rightarrow> (h', Inr m))))
       \<and> {n. cls_dict (generate_fluent_setters cls) n \<noteq> cls_dict cls n}
            = (\<lambda>g. ''with_'' @ g) ` {g \<in> set (annotations cls). \<not> hasattr cls (''with_'' @ g)}
       \<and> inj (\<lambda>g. ''with_'' @ g)
       \<and> generate_fluent_setters cls =
            fold (\<lambda>field c.
                    if \<not> hasattr c (join ''_'' [''with'', field])
                    then setattr_cls c (join ''_'' [''with'', field])
                           (fluent_setter field (setter_lambda field))
                    else c) (annotations cls) cls"
proof -
  have nh: "\<not> hasattr cls (''with_'' @ f)" using assms(2) by simp
  have new: "cls_dict (generate_fluent_setters cls) (''with_'' @ f)
               = Some (fluent_setter f (setter_lambda f))"
    unfolding generate_fluent_setters_def using assms(1) nh by (rule loop_new)
  have beh: "fluent_setter f (setter_lambda f) h m v =
                  (case py_setattr h m f v of
                     (h', Inl e) \<Rightarrow> (h', Inl e)
                   | (h', Inr u) \<Rightarrow> (h', Inr m))" for h :: "'v heap" and m v
    by (simp add: fluent_setter_def decorator_def wrapper_def)
  have inj: "inj (\<lambda>g. ''with_'' @ g)" by (simp add: inj_def)
  have name: "join ''_'' [''with'', f] = ''with_'' @ f" by simp
  have ch: "{n. cls_dict (generate_fluent_setters cls) n \<noteq> cls_dict cls n}
            = (\<lambda>g. ''with_'' @ g) ` {g \<in> set (annotations cls). \<not> hasattr cls (''with_'' @ g)}"
    unfolding generate_fluent_setters_def by (rule loop_changed)
  have fo: "generate_fluent_setters cls =
            fold (\<lambda>field c.
                    if \<not> hasattr c (join ''_'' [''with'', field])
                    then setattr_cls c (join ''_'' [''with'', field])
                           (fluent_setter field (setter_lambda field))
                    else c) (annotations cls) cls"
    unfolding generate_fluent_setters_def by (rule loop_fold)
  from new beh have ex: "\<exists>s. cls_dict (generate_fluent_setters cls) (''with_'' @ f) = Some s
            \<and> (\<forall>h m v. s h m v =
                  (case py_setattr h m f v of
                     (h', Inl e) \<Rightarrow> (h', Inl e)
                   | (h', Inr u) \<Rightarrow> (h', Inr m)))" by blast
  show ?thesis
    apply (intro conjI)
    apply (rule name)
    apply (rule ex)
    apply (rule ch)
    apply (rule inj)
    apply (rule fo)
    done
qed

theorem generated_setter_witness:
  "''a'' \<in> set (annotations example_cls) \<and> \<not> hasattr example_cls (join ''_'' [''with'', ''a''])
   \<and> join ''_'' [''with'', ''a''] = ''with_a''
   \<and> {n. cls_dict (generate_fluent_setters example_cls) n \<noteq> cls_dict example_cls n} = {''with_a''}"
proof -
  have m: "''a'' \<in> set (annotations example_cls)" by (simp add: example_cls_def)
  have nh: "\<not> hasattr example_cls (join ''_'' [''with'', ''a''])"
    by (simp add: hasattr_def getattr_cls_def example_cls_def)
  have el: "{g \<in> set (annotations example_cls). \<not> hasattr example_cls (''with_'' @ g)} = {''a''}"
    by (auto simp: hasattr_def getattr_cls_def example_cls_def)
  note t = generated_setter [OF m nh]
  from t have "{n. cls_dict (generate_fluent_setters example_cls) n \<noteq> cls_dict example_cls n}
      = (\<lambda>g. ''with_'' @ g) ` {g \<in> set (annotations example_cls). \<not> hasattr example_cls (''with_'' @ g)}"
    by blast
  with el have c: "{n. cls_dict (generate_fluent_setters example_cls) n \<noteq> cls_dict example_cls n}
      = {''with_a''}" by simp
  from t have n: "join ''_'' [''with'', ''a''] = ''with_a''" by simp
  from m nh n c show ?thesis by blast
qed

section \<open>Frame condition\<close>

text \<open>
  Claim C6. A call of the fluent setter of \<open>f\<close> on \<open>m\<close> leaves every other field
  \<open>g\<close> of \<open>m\<close> and every attribute of every other instance as they were. The call
  makes one assignment: when it succeeds the store differs from the one before in
  field \<open>f\<close> of \<open>m\<close> only, and when it raises the store is the one before.
\<close>

theorem setter_frame:
  fixes meth :: "('v, 'a) py_method" and h :: "'v heap"
  assumes "g \<noteq> f"
  shows "py_getattr (fst (fluent_setter f meth h m v)) m g = py_getattr h m g
       \<and> (\<forall>r name. r \<noteq> m \<longrightarrow> py_getattr (fst (fluent_setter f meth h m v)) r name = py_getattr h r name)
       \<and> (\<forall>e. assign_hook (h m) f v = Inl e \<longrightarrow> fst (fluent_setter f meth h m v) = h)
       \<and> (\<forall>stored. assign_hook (h m) f v = Inr stored \<longrightarrow>
            fst (fluent_setter f meth h m v)
              = h(m := (h m)\<lparr>inst_dict := (inst_dict (h m))(f \<mapsto> stored)\<rparr>))"
  using assms by (simp add: fluent_setter_apply py_getattr_def split: sum.splits)

theorem setter_frame_witness:
  "''b'' \<noteq> ''a''
   \<and> py_getattr (fst (fluent_setter ''a'' user_method
         (plain_heap(3 := plain_instance\<lparr>inst_dict := [''b'' \<mapsto> 8]\<rparr>)) 3 5)) 3 ''b'' = Some 8
   \<and> py_getattr (fst (fluent_setter ''a'' user_method
         (plain_heap(3 := plain_instance\<lparr>inst_dict := [''b'' \<mapsto> 8]\<rparr>)) 3 5)) 3 ''a'' = Some 5"
proof -
  let ?h = "plain_heap(3 := plain_instance\<lparr>inst_dict := [''b'' \<mapsto> 8]\<rparr>)"
  have ne: "''b'' \<noteq> ''a''" by simp
  have before: "py_getattr ?h 3 ''b'' = Some 8" by (simp add: py_getattr_def)
  have hook: "assign_hook (?h 3) ''a'' 5 = Inr 5" by (simp add: plain_instance_def)
  note t = setter_frame [where g = "''b''" and f = "''a''" and meth = user_method and h = ?h
      and m = 3 and v = 5, OF ne]
  from t before have b: "py_getattr (fst (fluent_setter ''a'' user_method ?h 3 5)) 3 ''b'' = Some 8"
    by simp
  from t hook have "fst (fluent_setter ''a'' user_method ?h 3 5)
      = ?h(3 := (?h 3)\<lparr>inst_dict := (inst_dict (?h 3))(''a'' \<mapsto> 5)\<rparr>)" by blast
  then have a: "py_getattr (fst (fluent_setter ''a'' user_method ?h 3 5)) 3 ''a'' = Some 5"
    by (simp add: py_getattr_def)
  from ne a b show ?thesis by blast
qed

section \<open>Validation failure\<close>

text \<open>
  Claim C7 says that, for a record type whose text field is limited to 140
  characters, the setter called with a 141-character string raises a validation
  error at that call, leaves the field's prior value unchanged and leaves the
  fields set earlier in the chain set. The code does not raise a validation error.
  On an instance whose \<open>text\<close> field is validated on assignment by \<open>text_replace\<close>,
  with \<open>id_str\<close> set by an earlier call, the setter called with 141 code points
  raises \<^verbatim>\<open>TypeError\<close>, because the validator's \<^verbatim>\<open>raise\<close> statement cannot build
  the exception it names; the store is returned unchanged. On an instance of a type
  that does not validate on assignment the same call raises nothing and stores the
  141 code points.
\<close>

theorem long_text_not_validation_error:
  "text_replace (replicate 141 97) = Inl TypeError
   \<and> fluent_setter ''text'' (setter_lambda ''text'')
         (tweet_heap(0 := tweet_instance\<lparr>inst_dict := [''id_str'' \<mapsto> [49]]\<rparr>)) 0 (replicate 141 97)
       = (tweet_heap(0 := tweet_instance\<lparr>inst_dict := [''id_str'' \<mapsto> [49]]\<rparr>), Inl TypeError)
   \<and> fluent_setter ''text'' (setter_lambda ''text'') unvalidated_heap 0 (replicate 141 97)
       = (unvalidated_heap(0 := unvalidated_instance\<lparr>inst_dict := [''text'' \<mapsto> replicate 141 97]\<rparr>),
          Inr 0)"
proof -
  have v: "text_replace (replicate 141 97) = Inl TypeError"
    by (simp add: text_replace_def py_raise_def validation_error_init_def)
  have hook: "assign_hook (tweet_instance\<lparr>inst_dict := [''id_str'' \<mapsto> [49]]\<rparr>) ''text''
      = text_replace"
    by (simp add: tweet_instance_def)
  have a: "fluent_setter ''text'' (setter_lambda ''text'')
         (tweet_heap(0 := tweet_instance\<lparr>inst_dict := [''id_str'' \<mapsto> [49]]\<rparr>)) 0 (replicate 141 97)
       = (tweet_heap(0 := tweet_instance\<lparr>inst_dict := [''id_str'' \<mapsto> [49]]\<rparr>), Inl TypeError)"
    by (simp only: fluent_setter_apply fun_upd_same hook v sum.case)
  have b: "fluent_setter ''text'' (setter_lambda ''text'') unvalidated_heap 0 (replicate 141 97)
       = (unvalidated_heap(0 := unvalidated_instance\<lparr>inst_dict := [''text'' \<mapsto> replicate 141 97]\<rparr>),
          Inr 0)"
    by (simp add: fluent_setter_apply unvalidated_heap_def unvalidated_instance_def)
  from v a b show ?thesis by blast
qed

section \<open>Types without fields\<close>

text \<open>
  Claim C8. On a type that declares no field, \<open>generate_fluent_setters\<close> returns the
  type as it was: no method is attached. Generation has no failing branch at all.
\<close>

theorem zero_fields_noop:
  assumes "annotations cls = []"
  shows "generate_fluent_setters cls = cls"
  using assms by (simp add: generate_fluent_setters_def)

theorem zero_fields_noop_witness:
  "annotations empty_cls = [] \<and> generate_fluent_setters empty_cls = empty_cls
   \<and> cls_dict (generate_fluent_setters empty_cls) = [''helper'' \<mapsto> user_method]"
proof -
  have a: "annotations empty_cls = []" by (simp add: empty_cls_def)
  from zero_fields_noop [OF a] have b: "generate_fluent_setters empty_cls = empty_cls" .
  have "cls_dict empty_cls = [''helper'' \<mapsto> user_method]" by (simp add: empty_cls_def)
  with a b show ?thesis by simp
qed

section \<open>The validators normalise\<close>

text \<open>
  Claim C9. For a string of at most 140 code points \<open>text_replace\<close> returns, and for
  one of at most 80 code points \<open>description_replace\<close> returns, the string of the same
  length in which every newline is a space and every other code point is kept; when
  the input holds a newline the result differs from the input.
\<close>

theorem validators_normalize:
  "(length v \<le> 140 \<longrightarrow>
      (\<exists>r. text_replace v = Inr r \<and> length r = length v
         \<and> (\<forall>i < length v. r ! i = (if v ! i = newline then space else v ! i))
         \<and> (newline \<in> set v \<longrightarrow> r \<noteq> v)))
   \<and> (length v \<le> 80 \<longrightarrow>
      (\<exists>r. description_replace v = Inr r \<and> length r = length v
         \<and> (\<forall>i < length v. r ! i = (if v ! i = newline then space else v ! i))
         \<and> (newline \<in> set v \<longrightarrow> r \<noteq> v)))"
proof -
  have ne: "newline \<noteq> space" by (simp add: newline_def space_def)
  show ?thesis
    using replace_pointwise [of newline space v] replace_changes [OF ne, of v]
    by (auto simp: text_replace_def description_replace_def)
qed

theorem validators_normalize_witness:
  "length [97, 10, 98 :: nat] \<le> 80 \<and> newline \<in> set [97, 10, 98]
   \<and> text_replace [97, 10, 98] = Inr [97, 32, 98]
   \<and> description_replace [97, 10, 98] = Inr [97, 32, 98]
   \<and> text_replace [97, 10, 98] \<noteq> Inr [97, 10, 98]"
proof -
  have l: "length [97, 10, 98 :: nat] \<le> 80" by simp
  have n: "newline \<in> set [97, 10, 98]" by (simp add: newline_def)
  have t: "text_replace [97, 10, 98] = Inr [97, 32, 98]"
    by (simp add: text_replace_def replace_def newline_def space_def)
  have d: "description_replace [97, 10, 98] = Inr [97, 32, 98]"
    by (simp add: description_replace_def replace_def newline_def space_def)
  from validators_normalize [of "[97, 10, 98]"] l n
  have "text_replace [97, 10, 98] \<noteq> Inr [97, 10, 98]" by auto
  with l n t d show ?thesis by blast
qed

section \<open>Inherited fields\<close>

text \<open>
  Claim C10. Generation reads the annotations of the class it is called on only. For
  a class derived from \<open>base\<close> that does not declare the field \<open>f\<close> of \<open>base\<close> again,
  the run on the derived class writes no \<open>with_f\<close> entry: the class's own entry for
  that name is what the class body gave it, and when neither the body nor
  \<open>base\<close> provides \<open>with_f\<close>, the derived class has no such attribute afterwards.
\<close>

theorem inherited_fields_skipped:
  assumes "f \<in> set (annotations base)" and "f \<notin> set anns"
  shows "cls_dict (generate_fluent_setters (derived_class base anns body)) (''with_'' @ f)
           = body (''with_'' @ f)
       \<and> (\<not> hasattr base (''with_'' @ f) \<and> body (''with_'' @ f) = None \<longrightarrow>
            \<not> hasattr (generate_fluent_setters (derived_class base anns body)) (''with_'' @ f))"
proof -
  let ?d = "derived_class base anns body"
  have "''with_'' @ f \<notin> (\<lambda>g. ''with_'' @ g) ` set anns" using assms(2) by auto
  then have "cls_dict (generate_loop anns ?d) (''with_'' @ f) = cls_dict ?d (''with_'' @ f)"
    by (rule loop_untouched)
  then have own: "cls_dict (generate_fluent_setters ?d) (''with_'' @ f) = body (''with_'' @ f)"
    by (simp add: generate_fluent_setters_def derived_class_def)
  have "bases_attrs (generate_fluent_setters ?d) = getattr_cls base"
    by (simp add: generate_fluent_setters_def loop_bases derived_class_def)
  with own show ?thesis by (simp add: hasattr_def getattr_cls_def split: option.splits)
qed

theorem inherited_fields_skipped_witness:
  "''a'' \<in> set (annotations example_cls) \<and> ''a'' \<notin> set [''c'']
   \<and> cls_dict (generate_fluent_setters (derived_class example_cls [''c''] Map.empty))
        (''with_'' @ ''a'') = None
   \<and> \<not> hasattr (generate_fluent_setters (derived_class example_cls [''c''] Map.empty))
        (''with_'' @ ''a'')
   \<and> hasattr (generate_fluent_setters (derived_class example_cls [''c''] Map.empty))
        (''with_'' @ ''c'')"
proof -
  have m: "''a'' \<in> set (annotations example_cls)" by (simp add: example_cls_def)
  have n: "''a'' \<notin> set [''c'']" by simp
  have nh: "\<not> hasattr example_cls (''with_'' @ ''a'')"
    by (simp add: hasattr_def getattr_cls_def example_cls_def)
  note t = inherited_fields_skipped [OF m n, of Map.empty]
  from t have a: "cls_dict (generate_fluent_setters (derived_class example_cls [''c''] Map.empty))
        (''with_'' @ ''a'') = None" by simp
  from t nh have b: "\<not> hasattr (generate_fluent_setters (derived_class example_cls [''c''] Map.empty))
        (''with_'' @ ''a'')" by simp
  have "annotations (derived_class example_cls [''c''] Map.empty) = [''c'']"
    by (simp add: derived_class_def)
  then have c: "hasattr (generate_fluent_setters (derived_class example_cls [''c''] Map.empty))
        (''with_'' @ ''c'')"
    unfolding generate_fluent_setters_def by (intro loop_covers) simp
  from m n a b c show ?thesis by blast
qed

end
